theory Spec2Isabelle
  imports Main "HOL-Library.Sublist"
begin

section \<open>A two-tier response cache: node-cache in front of Redis\<close>

text \<open>
  The development embeds \<^verbatim>\<open>src/middleware/cache.js\<close> (class CacheManager) and
  \<^verbatim>\<open>src/config/redis.js\<close> (class RedisManager).  Both modules rest on
  parts of the JavaScript platform whose behaviour the embedding has to write out:
  truthiness, \<^verbatim>\<open>JSON.stringify\<close>, \<^verbatim>\<open>JSON.parse\<close>,
  \<^verbatim>\<open>String.prototype.includes\<close>, the Redis client and the
  \<^verbatim>\<open>node-cache\<close> package.
\<close>

subsection \<open>JavaScript values\<close>

text \<open>
  The payloads are JSON-like values.  Numbers are the integral ones (fractions live in
  IEEE-754 arithmetic and are outside this embedding); strings are lists of 8-bit
  characters; an object lists its own properties in enumeration order, and a
  well-formed object has no repeated key.
\<close>

datatype json =
    JNull
  | JBool bool
  | JNum int
  | JStr string
  | JArr "json list"
  | JObj "(string \<times> json) list"

text \<open>ToBoolean: \<^verbatim>\<open>null\<close>, \<^verbatim>\<open>false\<close>, \<^verbatim>\<open>0\<close> and
  the empty string are falsy, every array and object is truthy.\<close>

fun truthy :: "json \<Rightarrow> bool" where
  "truthy JNull = False"
| "truthy (JBool b) = b"
| "truthy (JNum n) = (n \<noteq> 0)"
| "truthy (JStr s) = (s \<noteq> [])"
| "truthy (JArr xs) = True"
| "truthy (JObj kvs) = True"

fun wf_json :: "json \<Rightarrow> bool" where
  "wf_json (JArr xs) = list_all wf_json xs"
| "wf_json (JObj kvs) = (distinct (map fst kvs) \<and> list_all (\<lambda>kv. wf_json (snd kv)) kvs)"
| "wf_json v = True"

subsection \<open>Decimal numerals\<close>

definition digits :: string where
  "digits = ''0123456789abcdef''"

text \<open>The position of the first occurrence of a character, or the length when there is
  none.\<close>

definition index_of :: "char \<Rightarrow> string \<Rightarrow> nat" where
  "index_of c s = length (takeWhile (\<lambda>d. d \<noteq> c) s)"

definition digit_char :: "nat \<Rightarrow> char" where
  "digit_char n = digits ! (n mod 10)"

definition is_digit :: "char \<Rightarrow> bool" where
  "is_digit c = (index_of c digits < 10)"

definition digit_val :: "char \<Rightarrow> nat" where
  "digit_val c = index_of c digits mod 10"

function show_nat :: "nat \<Rightarrow> string" where
  "show_nat n = (if n < 10 then [digit_char n] else show_nat (n div 10) @ [digit_char (n mod 10)])"
  by pat_completeness auto
termination
  by (relation "measure (\<lambda>n. n)") auto

declare show_nat.simps [simp del]

text \<open>Number::toString on an integral number below \<open>10\<^sup>2\<^sup>1\<close> in magnitude.\<close>

definition show_int :: "int \<Rightarrow> string" where
  "show_int i = (if i < 0 then CHR ''-'' # show_nat (nat (- i)) else show_nat (nat i))"

subsection \<open>JSON.stringify\<close>

definition hex_digit :: "nat \<Rightarrow> char" where
  "hex_digit n = digits ! (n mod 16)"

text \<open>QuoteJSONString, one code unit at a time: the quote and the backslash are
  escaped, the control characters below 0x20 get their short escape or
  \<^verbatim>\<open>\u00XX\<close>, everything else is copied.\<close>

definition escape_char :: "char \<Rightarrow> string" where
  "escape_char c =
     (if c = CHR 0x22 then [CHR 0x5C, CHR 0x22]
      else if c = CHR 0x5C then [CHR 0x5C, CHR 0x5C]
      else if c = CHR 0x08 then [CHR 0x5C, CHR ''b'']
      else if c = CHR 0x0C then [CHR 0x5C, CHR ''f'']
      else if c = CHR 0x0A then [CHR 0x5C, CHR ''n'']
      else if c = CHR 0x0D then [CHR 0x5C, CHR ''r'']
      else if c = CHR 0x09 then [CHR 0x5C, CHR ''t'']
      else if (of_char c :: nat) < 32 then
        [CHR 0x5C, CHR ''u'', CHR ''0'', CHR ''0'',
         hex_digit ((of_char c :: nat) div 16), hex_digit ((of_char c :: nat) mod 16)]
      else [c])"

definition quote :: "string \<Rightarrow> string" where
  "quote s = CHR 0x22 # concat (map escape_char s) @ [CHR 0x22]"

fun join :: "string list \<Rightarrow> string" where
  "join [] = []"
| "join [x] = x"
| "join (x # y # ys) = x @ CHR '','' # join (y # ys)"

fun JSON_stringify :: "json \<Rightarrow> string" where
  "JSON_stringify JNull = ''null''"
| "JSON_stringify (JBool b) = (if b then ''true'' else ''false'')"
| "JSON_stringify (JNum n) = show_int n"
| "JSON_stringify (JStr s) = quote s"
| "JSON_stringify (JArr xs) = CHR ''['' # join (map JSON_stringify xs) @ '']''"
| "JSON_stringify (JObj kvs) =
     CHR ''{'' # join (map (\<lambda>kv. quote (fst kv) @ CHR '':'' # JSON_stringify (snd kv)) kvs) @ ''}''"

subsection \<open>JSON.parse\<close>

text \<open>
  A recursive-descent reader of the JSON grammar.  \<open>None\<close> stands for the
  SyntaxError that \<^verbatim>\<open>JSON.parse\<close> throws.  A number literal with a fraction or an
  exponent, and a \<^verbatim>\<open>\uXXXX\<close> escape above 0xFF, denote values outside the value
  type of this embedding and are refused as well.  The reader runs on fuel; the text's
  length plus one is handed in by \<open>JSON_parse\<close>.
\<close>

definition is_ws :: "char \<Rightarrow> bool" where
  "is_ws c = (c = CHR '' '' \<or> c = CHR 0x09 \<or> c = CHR 0x0A \<or> c = CHR 0x0D)"

fun skip_ws :: "string \<Rightarrow> string" where
  "skip_ws [] = []"
| "skip_ws (c # cs) = (if is_ws c then skip_ws cs else c # cs)"

text \<open>A hexadecimal digit in either case.\<close>

definition hex_val :: "char \<Rightarrow> nat option" where
  "hex_val c =
     (if index_of c digits < 16 then Some (index_of c digits)
      else if index_of c ''ABCDEF'' < 6 then Some (10 + index_of c ''ABCDEF'')
      else None)"

definition hex4 :: "char \<Rightarrow> char \<Rightarrow> char \<Rightarrow> char \<Rightarrow> char option" where
  "hex4 a b c d =
     (case hex_val a of None \<Rightarrow> None | Some w \<Rightarrow>
     (case hex_val b of None \<Rightarrow> None | Some x \<Rightarrow>
     (case hex_val c of None \<Rightarrow> None | Some y \<Rightarrow>
     (case hex_val d of None \<Rightarrow> None | Some z \<Rightarrow>
        (let n = ((w * 16 + x) * 16 + y) * 16 + z
         in if n < 256 then Some (char_of n) else None)))))"

definition unescape_simple :: "char \<Rightarrow> char option" where
  "unescape_simple e =
     (if e = CHR 0x22 then Some (CHR 0x22)
      else if e = CHR 0x5C then Some (CHR 0x5C)
      else if e = CHR ''/'' then Some (CHR ''/'')
      else if e = CHR ''b'' then Some (CHR 0x08)
      else if e = CHR ''f'' then Some (CHR 0x0C)
      else if e = CHR ''n'' then Some (CHR 0x0A)
      else if e = CHR ''r'' then Some (CHR 0x0D)
      else if e = CHR ''t'' then Some (CHR 0x09)
      else None)"

definition cons_str :: "char \<Rightarrow> (string \<times> string) option \<Rightarrow> (string \<times> string) option" where
  "cons_str c r = (case r of None \<Rightarrow> None | Some (s, rest) \<Rightarrow> Some (c # s, rest))"

text \<open>The characters after an opening quote, up to and including the closing one.\<close>

fun parse_string_body :: "string \<Rightarrow> (string \<times> string) option" where
  "parse_string_body [] = None"
| "parse_string_body (c # cs) =
     (if c = CHR 0x22 then Some ([], cs)
      else if c = CHR 0x5C then
        (case cs of
           [] \<Rightarrow> None
         | e # es \<Rightarrow>
             if e = CHR ''u'' then
               (case es of
                  h1 # h2 # h3 # h4 # rest \<Rightarrow>
                    (case hex4 h1 h2 h3 h4 of
                       None \<Rightarrow> None
                     | Some ch \<Rightarrow> cons_str ch (parse_string_body rest))
                | _ \<Rightarrow> None)
             else
               (case unescape_simple e of
                  None \<Rightarrow> None
                | Some ch \<Rightarrow> cons_str ch (parse_string_body es)))
      else if (of_char c :: nat) < 32 then None
      else cons_str c (parse_string_body cs))"

fun parse_digits :: "nat \<Rightarrow> string \<Rightarrow> nat \<times> string" where
  "parse_digits acc [] = (acc, [])"
| "parse_digits acc (c # cs) =
     (if is_digit c then parse_digits (10 * acc + digit_val c) cs else (acc, c # cs))"

definition frac_or_exp :: "string \<Rightarrow> bool" where
  "frac_or_exp r = (case r of [] \<Rightarrow> False | d # ds \<Rightarrow> d = CHR ''.'' \<or> d = CHR ''e'' \<or> d = CHR ''E'')"

definition parse_unsigned :: "string \<Rightarrow> (nat \<times> string) option" where
  "parse_unsigned s =
     (case s of
        [] \<Rightarrow> None
      | c # cs \<Rightarrow>
          if \<not> is_digit c then None
          else (let (n, r) = (if c = CHR ''0'' then (0, cs) else parse_digits (digit_val c) cs)
                in if frac_or_exp r then None else Some (n, r)))"

definition parse_number :: "string \<Rightarrow> (json \<times> string) option" where
  "parse_number s =
     (case s of
        [] \<Rightarrow> None
      | c # cs \<Rightarrow>
          if c = CHR ''-'' then
            (case parse_unsigned cs of None \<Rightarrow> None | Some (n, r) \<Rightarrow> Some (JNum (- int n), r))
          else
            (case parse_unsigned s of None \<Rightarrow> None | Some (n, r) \<Rightarrow> Some (JNum (int n), r)))"

text \<open>Defining a property that is already there keeps its place and takes the new
  value, as CreateDataProperty does on a repeated key.\<close>

fun obj_put :: "('k \<times> 'v) list \<Rightarrow> 'k \<Rightarrow> 'v \<Rightarrow> ('k \<times> 'v) list" where
  "obj_put [] k v = [(k, v)]"
| "obj_put ((k', v') # kvs) k v = (if k' = k then (k, v) # kvs else (k', v') # obj_put kvs k v)"

fun parse_value :: "nat \<Rightarrow> string \<Rightarrow> (json \<times> string) option"
  and parse_elements :: "nat \<Rightarrow> json list \<Rightarrow> string \<Rightarrow> (json list \<times> string) option"
  and parse_members :: "nat \<Rightarrow> (string \<times> json) list \<Rightarrow> string \<Rightarrow> ((string \<times> json) list \<times> string) option"
where
  "parse_value 0 s = None"
| "parse_value (Suc n) s =
     (case skip_ws s of
        [] \<Rightarrow> None
      | c # cs \<Rightarrow>
          if c = CHR ''n'' then (if take 3 cs = ''ull'' then Some (JNull, drop 3 cs) else None)
          else if c = CHR ''t'' then (if take 3 cs = ''rue'' then Some (JBool True, drop 3 cs) else None)
          else if c = CHR ''f'' then (if take 4 cs = ''alse'' then Some (JBool False, drop 4 cs) else None)
          else if c = CHR 0x22 then
            (case parse_string_body cs of None \<Rightarrow> None | Some (str, r) \<Rightarrow> Some (JStr str, r))
          else if c = CHR ''['' then
            (case skip_ws cs of
               [] \<Rightarrow> None
             | d # ds \<Rightarrow>
                 if d = CHR '']'' then Some (JArr [], ds)
                 else (case parse_elements n [] (d # ds) of
                         None \<Rightarrow> None
                       | Some (xs, r) \<Rightarrow> Some (JArr xs, r)))
          else if c = CHR ''{'' then
            (case skip_ws cs of
               [] \<Rightarrow> None
             | d # ds \<Rightarrow>
                 if d = CHR ''}'' then Some (JObj [], ds)
                 else (case parse_members n [] (d # ds) of
                         None \<Rightarrow> None
                       | Some (kvs, r) \<Rightarrow> Some (JObj kvs, r)))
          else parse_number (c # cs))"
| "parse_elements 0 acc s = None"
| "parse_elements (Suc n) acc s =
     (case parse_value n s of
        None \<Rightarrow> None
      | Some (v, r) \<Rightarrow>
          (case skip_ws r of
             [] \<Rightarrow> None
           | c # cs \<Rightarrow>
               if c = CHR '','' then parse_elements n (acc @ [v]) cs
               else if c = CHR '']'' then Some (acc @ [v], cs)
               else None))"
| "parse_members 0 acc s = None"
| "parse_members (Suc n) acc s =
     (case skip_ws s of
        [] \<Rightarrow> None
      | q # qs \<Rightarrow>
          if q \<noteq> CHR 0x22 then None
          else
            (case parse_string_body qs of
               None \<Rightarrow> None
             | Some (k, r) \<Rightarrow>
                 (case skip_ws r of
                    [] \<Rightarrow> None
                  | c # cs \<Rightarrow>
                      if c \<noteq> CHR '':'' then None
                      else
                        (case parse_value n cs of
                           None \<Rightarrow> None
                         | Some (v, r') \<Rightarrow>
                             (case skip_ws r' of
                                [] \<Rightarrow> None
                              | d # ds \<Rightarrow>
                                  if d = CHR '','' then parse_members n (obj_put acc k v) ds
                                  else if d = CHR ''}'' then Some (obj_put acc k v, ds)
                                  else None)))))"

definition JSON_parse :: "string \<Rightarrow> json option" where
  "JSON_parse s =
     (case parse_value (Suc (length s)) s of
        None \<Rightarrow> None
      | Some (v, r) \<Rightarrow> if skip_ws r = [] then Some v else None)"

subsection \<open>Template literals and substring search\<close>

text \<open>ToString as a template literal applies it: a string stays as it is, an array
  joins its elements with commas (\<^verbatim>\<open>null\<close> elements as the empty string), an object
  prints as \<^verbatim>\<open>[object Object]\<close>.\<close>

fun js_toString :: "json \<Rightarrow> string" where
  "js_toString JNull = ''null''"
| "js_toString (JBool b) = (if b then ''true'' else ''false'')"
| "js_toString (JNum n) = show_int n"
| "js_toString (JStr s) = s"
| "js_toString (JArr xs) = join (map (\<lambda>x. if x = JNull then [] else js_toString x) xs)"
| "js_toString (JObj kvs) = ''[object Object]''"

text \<open>\<^verbatim>\<open>key.includes(pattern)\<close>: the pattern occurs at some position of the key.\<close>

fun includes_str :: "string \<Rightarrow> string \<Rightarrow> bool" where
  "includes_str [] p = (p = [])"
| "includes_str (c # cs) p = (prefix p (c # cs) \<or> includes_str cs p)"

subsection \<open>The Redis client\<close>

text \<open>
  The network store behind \<^verbatim>\<open>redis.createClient\<close>: a table from keys to a
  serialized value with its time to live.  When the server cannot be reached every
  command rejects; SETEX with a time to live that is not positive is answered with an
  error reply.  The passing of time is not part of the state: the operations below
  describe the tiers between two expiries.
\<close>

datatype error = ConnectionError | ReplyError | SyntaxError | ECACHEFULL

record redis_client =
  reachable :: bool
  entries :: "string \<rightharpoonup> (string \<times> int)"

definition client_get :: "redis_client \<Rightarrow> string \<Rightarrow> error + string option" where
  "client_get c key =
     (if reachable c then Inr (map_option fst (entries c key)) else Inl ConnectionError)"

definition client_setEx :: "redis_client \<Rightarrow> string \<Rightarrow> int \<Rightarrow> string \<Rightarrow> error + redis_client" where
  "client_setEx c key ttlSeconds serialized =
     (if \<not> reachable c then Inl ConnectionError
      else if ttlSeconds \<le> 0 then Inl ReplyError
      else Inr (c\<lparr>entries := (entries c)(key \<mapsto> (serialized, ttlSeconds))\<rparr>))"

definition client_del :: "redis_client \<Rightarrow> string \<Rightarrow> error + redis_client" where
  "client_del c key =
     (if reachable c then Inr (c\<lparr>entries := (entries c)(key := None)\<rparr>) else Inl ConnectionError)"

subsection \<open>RedisManager\<close>

text \<open>
  Each method is a \<^verbatim>\<open>try\<close> block and its \<^verbatim>\<open>catch\<close>.  The block is the
  function with suffix \<open>_try\<close>; \<open>Inl\<close> is an exception leaving it.  The handler logs
  (the logger is left out) and returns the fallback value.  The result type of the
  methods keeps the \<open>Inl\<close> side, a rejected promise, so that not rejecting is a
  statement about them.
\<close>

definition RedisManager_get_try :: "redis_client \<Rightarrow> string \<Rightarrow> error + json" where
  "RedisManager_get_try c key =
     (case client_get c key of
        Inl e \<Rightarrow> Inl e
      | Inr None \<Rightarrow> Inr JNull
      | Inr (Some v) \<Rightarrow>
          if v = [] then Inr JNull
          else (case JSON_parse v of None \<Rightarrow> Inl SyntaxError | Some x \<Rightarrow> Inr x))"

definition RedisManager_get :: "redis_client \<Rightarrow> string \<Rightarrow> error + json" where
  "RedisManager_get c key =
     (case RedisManager_get_try c key of Inl e \<Rightarrow> Inr JNull | Inr x \<Rightarrow> Inr x)"

definition RedisManager_set_try :: "redis_client \<Rightarrow> string \<Rightarrow> json \<Rightarrow> int \<Rightarrow> error + bool \<times> redis_client" where
  "RedisManager_set_try c key v ttlSeconds =
     (let serialized = JSON_stringify v
      in case client_setEx c key ttlSeconds serialized of
           Inl e \<Rightarrow> Inl e
         | Inr c' \<Rightarrow> Inr (True, c'))"

definition RedisManager_set :: "redis_client \<Rightarrow> string \<Rightarrow> json \<Rightarrow> int \<Rightarrow> error + bool \<times> redis_client" where
  "RedisManager_set c key v ttlSeconds =
     (case RedisManager_set_try c key v ttlSeconds of Inl e \<Rightarrow> Inr (False, c) | Inr r \<Rightarrow> Inr r)"

definition RedisManager_del_try :: "redis_client \<Rightarrow> string \<Rightarrow> error + bool \<times> redis_client" where
  "RedisManager_del_try c key =
     (case client_del c key of Inl e \<Rightarrow> Inl e | Inr c' \<Rightarrow> Inr (True, c'))"

definition RedisManager_del :: "redis_client \<Rightarrow> string \<Rightarrow> error + bool \<times> redis_client" where
  "RedisManager_del c key =
     (case RedisManager_del_try c key of Inl e \<Rightarrow> Inr (False, c) | Inr r \<Rightarrow> Inr r)"

subsection \<open>The node-cache package\<close>

text \<open>
  The memory tier is an instance of the \<^verbatim>\<open>node-cache\<close> package, which the repository
  only constructs and calls.  Its methods are written out as the package documents
  them for the options the constructor passes: \<^verbatim>\<open>get\<close> returns the stored value or
  \<^verbatim>\<open>undefined\<close> (here \<open>None\<close>); \<^verbatim>\<open>set\<close> on a cache that already holds
  \<^verbatim>\<open>maxKeys\<close> keys throws ECACHEFULL and stores nothing (the test comes first, also
  when the key is already there), otherwise it stores the value under the key (a key
  that exists keeps its place); \<^verbatim>\<open>del\<close> removes the key; \<^verbatim>\<open>keys\<close> lists the keys.
  A negative \<^verbatim>\<open>maxKeys\<close> switches the limit off.  The package has no eviction.  An
  entry keeps the time to live it was stored with; expiry by the clock
  (\<^verbatim>\<open>stdTTL\<close>, \<^verbatim>\<open>deleteOnExpire\<close>) is not part of the state, as for Redis.
\<close>

record node_cache =
  data :: "(string \<times> (json \<times> int)) list"
  maxKeys :: int

definition NodeCache_get :: "node_cache \<Rightarrow> string \<Rightarrow> json option" where
  "NodeCache_get m key = map_option fst (map_of (data m) key)"

definition NodeCache_set :: "node_cache \<Rightarrow> string \<Rightarrow> json \<Rightarrow> int \<Rightarrow> error + node_cache" where
  "NodeCache_set m key v ttl =
     (if maxKeys m > - 1 \<and> int (length (data m)) \<ge> maxKeys m then Inl ECACHEFULL
      else Inr (m\<lparr>data := obj_put (data m) key (v, ttl)\<rparr>))"

definition NodeCache_del :: "node_cache \<Rightarrow> string \<Rightarrow> node_cache" where
  "NodeCache_del m key = m\<lparr>data := filter (\<lambda>e. fst e \<noteq> key) (data m)\<rparr>"

definition NodeCache_keys :: "node_cache \<Rightarrow> string list" where
  "NodeCache_keys m = map fst (data m)"

subsection \<open>CacheManager\<close>

text \<open>The constructor: \<^verbatim>\<open>parseInt(process.env.MEMORY_CACHE_MAX) || 1000\<close>, where an
  unset variable parses to NaN.\<close>

definition constructor :: "int option \<Rightarrow> node_cache" where
  "constructor MEMORY_CACHE_MAX =
     \<lparr>data = [],
      maxKeys = (case MEMORY_CACHE_MAX of None \<Rightarrow> 1000 | Some n \<Rightarrow> if n = 0 then 1000 else n)\<rparr>"

record user =
  user_id :: json

record req =
  "method" :: string
  originalUrl :: string
  query :: json
  user :: "user option"

text \<open>The two module-level singletons the middleware works on.\<close>

record world =
  memoryCache :: node_cache
  redisClient :: redis_client

definition generateKey :: "'a req_scheme \<Rightarrow> string" where
  "generateKey r =
     (let userId = (case user r of None \<Rightarrow> ''anonymous'' | Some u \<Rightarrow> js_toString (user_id u))
      in ''api:'' @ method r @ '':'' @ originalUrl r @ '':'' @ JSON_stringify (query r) @ '':'' @ userId)"

text \<open>What a run does to the outside, in order: calls into the tiers, calls on the
  response object, the call of \<^verbatim>\<open>next\<close>.\<close>

datatype action =
    KeyDerived string
  | MemoryGet string
  | MemorySet string
  | RedisGet string
  | RedisSet string
  | HeaderSet string string
  | JsonSent json
  | JsonWrapped
  | ErrorLogged
  | NextCalled
  | NextError error

fun truthy_opt :: "json option \<Rightarrow> bool" where
  "truthy_opt None = False"
| "truthy_opt (Some v) = truthy v"

text \<open>The handler returned by \<^verbatim>\<open>cache(ttl, useMemory)\<close>, up to its return.\<close>

definition cache :: "int \<Rightarrow> bool \<Rightarrow> req \<Rightarrow> world \<Rightarrow> action list \<times> world" where
  "cache ttl useMemory r w =
     (if method r \<noteq> ''GET'' then ([NextCalled], w)
      else
        let key = generateKey r;
            memoryResult = (if useMemory then NodeCache_get (memoryCache w) key else None);
            lookup1 = KeyDerived key # (if useMemory then [MemoryGet key] else [])
        in case (if truthy_opt memoryResult then memoryResult else None) of
             Some v \<Rightarrow> (lookup1 @ [HeaderSet ''X-Cache'' ''HIT-MEMORY'', JsonSent v], w)
           | None \<Rightarrow>
               (case RedisManager_get (redisClient w) key of
                  Inl e \<Rightarrow> (lookup1 @ [RedisGet key, ErrorLogged, NextCalled], w)
                | Inr redisResult \<Rightarrow>
                    if truthy redisResult then
                      (if useMemory then
                         (case NodeCache_set (memoryCache w) key redisResult ttl of
                            Inl e \<Rightarrow>
                              (lookup1 @ [RedisGet key, MemorySet key, ErrorLogged, NextCalled], w)
                          | Inr m' \<Rightarrow>
                              (lookup1 @ [RedisGet key, MemorySet key,
                                 HeaderSet ''X-Cache'' ''HIT-REDIS'', JsonSent redisResult],
                               w\<lparr>memoryCache := m'\<rparr>))
                       else
                         (lookup1 @ [RedisGet key,
                            HeaderSet ''X-Cache'' ''HIT-REDIS'', JsonSent redisResult], w))
                    else
                      (lookup1 @ [RedisGet key, HeaderSet ''X-Cache'' ''MISS'', JsonWrapped,
                         NextCalled], w)))"

text \<open>The function the middleware puts in place of \<^verbatim>\<open>res.json\<close> on a miss.  It runs
  when the route handler emits its payload, outside the middleware's \<^verbatim>\<open>try\<close>: an
  exception of \<^verbatim>\<open>memoryCache.set\<close> leaves it.  The promise of
  \<^verbatim>\<open>redisClient.set\<close> is not awaited.\<close>

definition res_json_override :: "int \<Rightarrow> bool \<Rightarrow> string \<Rightarrow> json \<Rightarrow> world \<Rightarrow> error + action list \<times> world" where
  "res_json_override ttl useMemory key d w =
     (case (if useMemory then NodeCache_set (memoryCache w) key d ttl else Inr (memoryCache w)) of
        Inl e \<Rightarrow> Inl e
      | Inr m' \<Rightarrow>
          (let c' = (case RedisManager_set (redisClient w) key d ttl of
                       Inl e \<Rightarrow> redisClient w
                     | Inr (ok, c1) \<Rightarrow> c1)
           in Inr ((if useMemory then [MemorySet key] else []) @ [RedisSet key, JsonSent d],
                   w\<lparr>memoryCache := m', redisClient := c'\<rparr>)))"

definition originalJson :: "json \<Rightarrow> world \<Rightarrow> error + action list \<times> world" where
  "originalJson d w = Inr ([JsonSent d], w)"

text \<open>The shape of the cached routes (\<^verbatim>\<open>routes/users.js\<close>, \<^verbatim>\<open>routes/orders.js\<close>):
  \<^verbatim>\<open>try { ...; res.json(payload) } catch (error) { next(error) }\<close>.\<close>

definition route_handler :: "(json \<Rightarrow> world \<Rightarrow> error + action list \<times> world) \<Rightarrow> json \<Rightarrow> world \<Rightarrow> action list \<times> world" where
  "route_handler res_json payload w =
     (case res_json payload w of Inl e \<Rightarrow> ([NextError e], w) | Inr r \<Rightarrow> r)"

text \<open>One request through \<^verbatim>\<open>router.get(path, cache.cache(ttl, useMemory), handler)\<close>,
  for a handler that computes \<open>payload\<close>.\<close>

definition serve :: "int \<Rightarrow> bool \<Rightarrow> req \<Rightarrow> json \<Rightarrow> world \<Rightarrow> action list \<times> world" where
  "serve ttl useMemory r payload w =
     (let (acts, w1) = cache ttl useMemory r w
      in if NextCalled \<in> set acts then
           (let res_json = (if JsonWrapped \<in> set acts
                            then res_json_override ttl useMemory (generateKey r)
                            else originalJson);
                (acts2, w2) = route_handler res_json payload w1
            in (acts @ acts2, w2))
         else (acts, w1))"

text \<open>\<^verbatim>\<open>invalidatePattern\<close>: nothing in its \<^verbatim>\<open>try\<close> block throws, and the Redis
  side is the TODO of the source.\<close>

definition invalidatePattern :: "string \<Rightarrow> world \<Rightarrow> world" where
  "invalidatePattern pattern w =
     w\<lparr>memoryCache :=
         foldl (\<lambda>m key. if includes_str key pattern then NodeCache_del m key else m)
           (memoryCache w) (NodeCache_keys (memoryCache w))\<rparr>"

subsection \<open>Sample requests and states\<close>

definition req_post :: req where
  "req_post = \<lparr>method = ''POST'', originalUrl = ''/api/products'', query = JObj [], user = None\<rparr>"

definition world_orders :: world where
  "world_orders =
     \<lparr>memoryCache =
        \<lparr>data = [(''api:GET:/api/orders:{}:7'', (JObj [(''orders'', JArr [])], 60)),
                 (''api:GET:/api/users:{}:anonymous'', (JObj [(''users'', JArr [])], 300))],
         maxKeys = 1000\<rparr>,
      redisClient =
        \<lparr>reachable = True,
         entries = [''api:GET:/api/orders:{}:7'' \<mapsto> (''{}'', 60)]\<rparr>\<rparr>"

definition req_products :: req where
  "req_products = \<lparr>method = ''GET'', originalUrl = ''/api/products?page=1'',
      query = JObj [(''page'', JStr ''1'')], user = None\<rparr>"



definition world_both :: world where
  "world_both =
     \<lparr>memoryCache = \<lparr>data = [(generateKey req_products, (JObj [(''tier'', JStr ''local'')], 180))], maxKeys = 1000\<rparr>,
      redisClient = \<lparr>reachable = True,
         entries = [generateKey req_products \<mapsto> (JSON_stringify (JObj [(''tier'', JStr ''remote'')]), 180)]\<rparr>\<rparr>"

definition world_falsy_local :: world where
  "world_falsy_local =
     \<lparr>memoryCache = \<lparr>data = [(generateKey req_products, (JNum 0, 180))], maxKeys = 1000\<rparr>,
      redisClient = \<lparr>reachable = True,
         entries = [generateKey req_products \<mapsto> (JSON_stringify (JNum 1), 180)]\<rparr>\<rparr>"

definition world_remote_only :: world where
  "world_remote_only =
     \<lparr>memoryCache = \<lparr>data = [], maxKeys = 1000\<rparr>,
      redisClient = \<lparr>reachable = True,
         entries = [generateKey req_products \<mapsto> (JSON_stringify (JObj [(''tier'', JStr ''remote'')]), 180)]\<rparr>\<rparr>"

definition world_full :: world where
  "world_full =
     \<lparr>memoryCache = \<lparr>data = [(''api:GET:/api/users:{}:anonymous'', (JObj [(''users'', JArr [])], 300))], maxKeys = 1\<rparr>,
      redisClient = \<lparr>reachable = True,
         entries = [generateKey req_products \<mapsto> (JSON_stringify (JObj [(''tier'', JStr ''remote'')]), 180)]\<rparr>\<rparr>"

definition world_down :: world where
  "world_down =
     \<lparr>memoryCache = \<lparr>data = [(generateKey req_products, (JObj [(''tier'', JStr ''local'')], 180))], maxKeys = 1000\<rparr>,
      redisClient = \<lparr>reachable = False,
         entries = [generateKey req_products \<mapsto> (JSON_stringify (JObj [(''tier'', JStr ''remote'')]), 180)]\<rparr>\<rparr>"

definition world_zero :: world where
  "world_zero =
     \<lparr>memoryCache = \<lparr>data = [(generateKey req_products, (JNum 0, 180))], maxKeys = 1000\<rparr>,
      redisClient = \<lparr>reachable = True,
         entries = [generateKey req_products \<mapsto> (JSON_stringify (JNum 0), 180)]\<rparr>\<rparr>"

subsection \<open>Vocabulary of the statements\<close>

text \<open>A sequence of \<^verbatim>\<open>set\<close> calls on the memory tier, with the outcome of each call:
  \<open>True\<close> when it returned, \<open>False\<close> when it threw.\<close>

fun set_each :: "node_cache \<Rightarrow> (string \<times> json \<times> int) list \<Rightarrow> bool list \<times> node_cache" where
  "set_each m [] = ([], m)"
| "set_each m ((k, v, ttl) # rest) =
     (case NodeCache_set m k v ttl of
        Inl e \<Rightarrow> (let (bs, m') = set_each m rest in (False # bs, m'))
      | Inr m1 \<Rightarrow> (let (bs, m') = set_each m1 rest in (True # bs, m')))"

definition three_sets :: "(string \<times> json \<times> int) list" where
  "three_sets = [(''a'', JNum 1, 60), (''b'', JNum 2, 60), (''c'', JNum 3, 60)]"



text \<open>What may follow a value inside a JSON text: nothing, a comma, or a closing bracket
  or brace.\<close>

definition delim :: "string \<Rightarrow> bool" where
  "delim rest = (case rest of [] \<Rightarrow> True | c # cs \<Rightarrow> c = CHR '','' \<or> c = CHR '']'' \<or> c = CHR ''}'')"

text \<open>A character that can open a value: not white space and not a closing bracket or
  brace.\<close>

definition value_start :: "char \<Rightarrow> bool" where
  "value_start c = (\<not> is_ws c \<and> c \<noteq> CHR '']'' \<and> c \<noteq> CHR ''}'')"


section \<open>Properties\<close>

subsection \<open>Substring search\<close>

lemma includes_str_iff: "includes_str s p \<longleftrightarrow> (\<exists>a b. s = a @ p @ b)"
proof (induction s)
  case Nil
  then show ?case by auto
next
  case (Cons c cs)
  show ?case
  proof
    assume "includes_str (c # cs) p"
    then consider "prefix p (c # cs)" | "includes_str cs p" by auto
    then show "\<exists>a b. c # cs = a @ p @ b"
    proof cases
      case 1
      then obtain b where "c # cs = p @ b" by (auto simp: prefix_def)
      then have "c # cs = [] @ p @ b" by simp
      then show ?thesis by blast
    next
      case 2
      with Cons.IH obtain a b where "cs = a @ p @ b" by blast
      then have "c # cs = (c # a) @ p @ b" by simp
      then show ?thesis by blast
    qed
  next
    assume "\<exists>a b. c # cs = a @ p @ b"
    then obtain a b where ab: "c # cs = a @ p @ b" by blast
    show "includes_str (c # cs) p"
    proof (cases a)
      case Nil
      with ab have "prefix p (c # cs)" by (simp add: prefix_def)
      then show ?thesis by simp
    next
      case (Cons x a')
      with ab have "cs = a' @ p @ b" by simp
      with Cons.IH have "includes_str cs p" by blast
      then show ?thesis by simp
    qed
  qed
qed

subsection \<open>Invalidation\<close>

lemma foldl_del_data:
  "data (foldl (\<lambda>m key. if includes_str key p then NodeCache_del m key else m) m ks) =
     filter (\<lambda>e. \<not> (fst e \<in> set ks \<and> includes_str (fst e) p)) (data m)"
proof (induction ks arbitrary: m)
  case Nil
  then show ?case by simp
next
  case (Cons k ks)
  show ?case
    by (auto simp: Cons.IH NodeCache_del_def intro!: filter_cong)
qed

lemma foldl_del_maxKeys:
  "maxKeys (foldl (\<lambda>m key. if includes_str key p then NodeCache_del m key else m) m ks) = maxKeys m"
  by (induction ks arbitrary: m) (simp_all add: NodeCache_del_def)

lemma invalidatePattern_data:
  "data (memoryCache (invalidatePattern p w)) =
     filter (\<lambda>e. \<not> includes_str (fst e) p) (data (memoryCache w))"
  unfolding invalidatePattern_def
  by (simp add: foldl_del_data NodeCache_keys_def) (rule filter_cong, auto)

lemma map_of_filter_keep:
  "P k \<Longrightarrow> map_of (filter (\<lambda>e. P (fst e)) xs) k = map_of xs k"
  by (induction xs) auto

text \<open>
  C7.  After \<open>invalidatePattern p\<close> the memory tier holds exactly the entries whose
  key does not contain \<open>p\<close>, in their old order and with their old value and time to
  live: no key containing \<open>p\<close> as a substring remains, every other key maps to what it
  mapped to before, the key limit is the same, and the Redis client with all its
  entries is left as it was.
\<close>

theorem invalidatePattern_scope:
  "data (memoryCache (invalidatePattern p w)) =
       filter (\<lambda>e. \<not> includes_str (fst e) p) (data (memoryCache w))
   \<and> maxKeys (memoryCache (invalidatePattern p w)) = maxKeys (memoryCache w)
   \<and> redisClient (invalidatePattern p w) = redisClient w
   \<and> (\<forall>k \<in> set (NodeCache_keys (memoryCache (invalidatePattern p w))). \<not> (\<exists>a b. k = a @ p @ b))
   \<and> (\<forall>k. \<not> (\<exists>a b. k = a @ p @ b) \<longrightarrow>
          map_of (data (memoryCache (invalidatePattern p w))) k = map_of (data (memoryCache w)) k)"
proof -
  have d: "data (memoryCache (invalidatePattern p w)) =
       filter (\<lambda>e. \<not> includes_str (fst e) p) (data (memoryCache w))"
    by (rule invalidatePattern_data)
  have m: "maxKeys (memoryCache (invalidatePattern p w)) = maxKeys (memoryCache w)"
    by (simp add: invalidatePattern_def foldl_del_maxKeys)
  have r: "redisClient (invalidatePattern p w) = redisClient w"
    by (simp add: invalidatePattern_def)
  have g: "\<forall>k \<in> set (NodeCache_keys (memoryCache (invalidatePattern p w))). \<not> (\<exists>a b. k = a @ p @ b)"
    unfolding NodeCache_keys_def d using includes_str_iff by auto
  have k: "\<forall>k. \<not> (\<exists>a b. k = a @ p @ b) \<longrightarrow>
          map_of (data (memoryCache (invalidatePattern p w))) k = map_of (data (memoryCache w)) k"
  proof (intro allI impI)
    fix k assume "\<not> (\<exists>a b. k = a @ p @ b)"
    then have "\<not> includes_str k p" by (simp add: includes_str_iff)
    then show "map_of (data (memoryCache (invalidatePattern p w))) k = map_of (data (memoryCache w)) k"
      unfolding d by (rule map_of_filter_keep [where P = "\<lambda>k. \<not> includes_str k p"])
  qed
  from d m r g k show ?thesis by blast
qed

theorem invalidatePattern_scope_witness:
  "NodeCache_keys (memoryCache (invalidatePattern ''orders'' world_orders)) =
       [''api:GET:/api/users:{}:anonymous'']
   \<and> map_of (data (memoryCache (invalidatePattern ''orders'' world_orders)))
         ''api:GET:/api/users:{}:anonymous'' = Some (JObj [(''users'', JArr [])], 300)
   \<and> entries (redisClient (invalidatePattern ''orders'' world_orders))
         ''api:GET:/api/orders:{}:7'' = Some (''{}'', 60)"
  using invalidatePattern_scope [of "''orders''" world_orders]
  by (simp add: world_orders_def NodeCache_keys_def)

subsection \<open>Requests that are not reads\<close>

text \<open>
  C9.  A request whose method is not GET makes the middleware call \<^verbatim>\<open>next\<close> and do
  nothing else: no key is derived, no tier is read or written, no header is set and
  \<^verbatim>\<open>res.json\<close> is not replaced, so the route handler's payload goes out through the
  original \<^verbatim>\<open>res.json\<close> and both tiers are as before.
\<close>

theorem non_GET_passes_through:
  "method r \<noteq> ''GET'' \<Longrightarrow>
     cache ttl useMemory r w = ([NextCalled], w)
   \<and> serve ttl useMemory r payload w = ([NextCalled, JsonSent payload], w)"
  by (simp add: cache_def serve_def route_handler_def originalJson_def)

theorem non_GET_passes_through_witness:
  "method req_post \<noteq> ''GET''
   \<and> cache 300 True req_post world_orders = ([NextCalled], world_orders)
   \<and> serve 300 True req_post (JObj [(''id'', JNum 1)]) world_orders =
       ([NextCalled, JsonSent (JObj [(''id'', JNum 1)])], world_orders)"
proof -
  have h: "method req_post \<noteq> ''GET''" by (simp add: req_post_def)
  from non_GET_passes_through [OF h] h show ?thesis by simp
qed

subsection \<open>Serialization\<close>

lemma below_10: "n < 10 \<Longrightarrow> n \<in> set [0, 1, 2, 3, 4, 5, 6, 7, 8, 9 :: nat]"
  by simp arith

lemma below_16:
  "n < 16 \<Longrightarrow> n \<in> set [0, 1, 2, 3, 4, 5, 6, 7, 8, 9, 10, 11, 12, 13, 14, 15 :: nat]"
  by simp arith

lemma digit_val_digit_char: "n < 10 \<Longrightarrow> digit_val (digit_char n) = n"
  by (drule below_10, simp) (elim disjE; simp add: digit_char_def digits_def digit_val_def index_of_def)

lemma is_digit_digit_char: "n < 10 \<Longrightarrow> is_digit (digit_char n)"
  by (drule below_10, simp) (elim disjE; simp add: digit_char_def digits_def is_digit_def index_of_def)

lemma digit_char_zero: "n < 10 \<Longrightarrow> digit_char n = CHR ''0'' \<longleftrightarrow> n = 0"
  by (drule below_10, simp) (elim disjE; simp add: digit_char_def digits_def)

lemma hex_val_hex_digit: "n < 16 \<Longrightarrow> hex_val (hex_digit n) = Some n"
  by (drule below_16, simp) (elim disjE; simp add: hex_digit_def digits_def hex_val_def index_of_def)


lemma is_digit_iff: "is_digit c \<longleftrightarrow> c \<in> set ''0123456789''"
  by (simp add: is_digit_def index_of_def digits_def)

lemma parse_digits_stop: "delim rest \<Longrightarrow> parse_digits acc rest = (acc, rest)"
  by (cases rest) (auto simp: delim_def is_digit_iff)

lemma delim_not_frac: "delim rest \<Longrightarrow> \<not> frac_or_exp rest"
  by (cases rest) (auto simp: delim_def frac_or_exp_def)

lemma parse_digits_show_nat:
  "parse_digits acc (show_nat n @ rest) = parse_digits (acc * 10 ^ length (show_nat n) + n) rest"
proof (induction n arbitrary: acc rest rule: show_nat.induct)
  case (1 n)
  show ?case
  proof (cases "n < 10")
    case True
    then have "show_nat n = [digit_char n]" by (simp add: show_nat.simps)
    with True show ?thesis by (simp add: is_digit_digit_char digit_val_digit_char mult.commute)
  next
    case False
    then have s: "show_nat n = show_nat (n div 10) @ [digit_char (n mod 10)]"
      by (subst show_nat.simps) simp
    have m: "n mod 10 < 10" by simp
    have "parse_digits acc (show_nat n @ rest) =
        parse_digits acc (show_nat (n div 10) @ (digit_char (n mod 10) # rest))"
      by (simp add: s)
    also have "\<dots> = parse_digits (acc * 10 ^ length (show_nat (n div 10)) + n div 10)
        (digit_char (n mod 10) # rest)"
      using False by (intro "1.IH") simp
    also have "\<dots> = parse_digits (10 * (acc * 10 ^ length (show_nat (n div 10)) + n div 10) + n mod 10) rest"
      using m by (simp add: is_digit_digit_char digit_val_digit_char)
    also have "10 * (acc * 10 ^ length (show_nat (n div 10)) + n div 10) + n mod 10
       = acc * 10 ^ length (show_nat n) + n"
      by (simp add: s algebra_simps)
    finally show ?thesis .
  qed
qed

lemma show_nat_head:
  "\<exists>c cs. show_nat n = c # cs \<and> is_digit c \<and> (c = CHR ''0'' \<longrightarrow> n = 0 \<and> cs = [])"
proof (induction n rule: show_nat.induct)
  case (1 n)
  show ?case
  proof (cases "n < 10")
    case True
    then have "show_nat n = [digit_char n]" by (simp add: show_nat.simps)
    with True show ?thesis by (simp add: is_digit_digit_char digit_char_zero)
  next
    case False
    then have s: "show_nat n = show_nat (n div 10) @ [digit_char (n mod 10)]"
      by (subst show_nat.simps) simp
    from False "1.IH" obtain c cs where
      h: "show_nat (n div 10) = c # cs" "is_digit c" "c = CHR ''0'' \<longrightarrow> n div 10 = 0 \<and> cs = []"
      by auto
    from False have "n div 10 \<noteq> 0" by simp
    with h s show ?thesis by auto
  qed
qed

lemma parse_unsigned_show_nat:
  assumes "delim rest"
  shows "parse_unsigned (show_nat n @ rest) = Some (n, rest)"
proof -
  obtain c cs where h: "show_nat n = c # cs" "is_digit c" "c = CHR ''0'' \<longrightarrow> n = 0 \<and> cs = []"
    using show_nat_head by blast
  show ?thesis
  proof (cases "c = CHR ''0''")
    case True
    with h assms show ?thesis by (simp add: parse_unsigned_def delim_not_frac)
  next
    case False
    have "parse_digits (digit_val c) (cs @ rest) = parse_digits 0 (show_nat n @ rest)"
      using h by simp
    also have "\<dots> = parse_digits n rest" by (simp add: parse_digits_show_nat)
    also have "\<dots> = (n, rest)" using assms by (rule parse_digits_stop)
    finally show ?thesis using h False assms by (simp add: parse_unsigned_def delim_not_frac)
  qed
qed

lemma parse_number_show_int:
  assumes "delim rest"
  shows "parse_number (show_int i @ rest) = Some (JNum i, rest)"
proof (cases "i < 0")
  case True
  then show ?thesis
    using assms by (simp add: show_int_def parse_number_def parse_unsigned_show_nat)
next
  case False
  obtain c cs where h: "show_nat (nat i) = c # cs" "is_digit c"
    using show_nat_head by blast
  then have "c \<noteq> CHR ''-''" by (auto simp: is_digit_iff)
  moreover have "parse_unsigned (c # cs @ rest) = Some (nat i, rest)"
    using parse_unsigned_show_nat [OF assms, of "nat i"] h by simp
  ultimately show ?thesis using False h by (simp add: show_int_def parse_number_def)
qed


lemma hex4_ctrl:
  assumes "(of_char c :: nat) < 32"
  shows "hex4 (CHR ''0'') (CHR ''0'') (hex_digit (of_char c div 16)) (hex_digit (of_char c mod 16)) = Some c"
proof -
  let ?n = "of_char c :: nat"
  have z: "hex_val (CHR ''0'') = Some 0" by (simp add: hex_val_def index_of_def digits_def)
  have a: "hex_val (hex_digit (?n div 16)) = Some (?n div 16)"
    using assms by (intro hex_val_hex_digit) simp
  have b: "hex_val (hex_digit (?n mod 16)) = Some (?n mod 16)"
    by (intro hex_val_hex_digit) simp
  have "?n div 16 * 16 + ?n mod 16 = ?n" by simp
  moreover have "?n < 256" using assms by simp
  ultimately show ?thesis by (simp add: hex4_def z a b)
qed

lemma parse_escape:
  "parse_string_body (escape_char c @ rest) = cons_str c (parse_string_body rest)"
proof -
  consider "c = CHR 0x22" | "c = CHR 0x5C" | "c = CHR 0x08" | "c = CHR 0x0C" | "c = CHR 0x0A"
    | "c = CHR 0x0D" | "c = CHR 0x09"
    | "c \<notin> {CHR 0x22, CHR 0x5C, CHR 0x08, CHR 0x0C, CHR 0x0A, CHR 0x0D, CHR 0x09}" "(of_char c :: nat) < 32"
    | "c \<notin> {CHR 0x22, CHR 0x5C, CHR 0x08, CHR 0x0C, CHR 0x0A, CHR 0x0D, CHR 0x09}" "\<not> (of_char c :: nat) < 32"
    by blast
  then show ?thesis
  proof cases
    case 8
    then show ?thesis by (simp add: escape_char_def hex4_ctrl)
  next
    case 9
    then show ?thesis by (simp add: escape_char_def)
  qed (simp_all add: escape_char_def unescape_simple_def)
qed

lemma parse_string_body_quote:
  "parse_string_body (concat (map escape_char s) @ CHR 0x22 # rest) = Some (s, rest)"
  by (induction s) (simp_all add: parse_escape cons_str_def)

lemma show_int_head: "\<exists>c cs. show_int i = c # cs \<and> (c = CHR ''-'' \<or> is_digit c)"
  using show_nat_head [of "nat i"] by (auto simp: show_int_def)

lemma stringify_head: "\<exists>c cs. JSON_stringify v = c # cs \<and> value_start c"
proof (cases v)
  case (JNum i)
  obtain c cs where "show_int i = c # cs" "c = CHR ''-'' \<or> is_digit c"
    using show_int_head by blast
  with JNum show ?thesis by (auto simp: value_start_def is_ws_def is_digit_iff)
qed (simp_all add: value_start_def is_ws_def quote_def)

lemma stringify_length: "0 < length (JSON_stringify v)"
  using stringify_head [of v] by auto

lemma parse_elements_join:
  assumes "\<And>x n rest. x \<in> set xs \<Longrightarrow> delim rest \<Longrightarrow> length (JSON_stringify x) \<le> n \<Longrightarrow>
             parse_value n (JSON_stringify x @ rest) = Some (x, rest)"
    and "xs \<noteq> []"
    and "length (join (map JSON_stringify xs)) < n"
  shows "parse_elements n acc (join (map JSON_stringify xs) @ CHR '']'' # rest) = Some (acc @ xs, rest)"
  using assms
proof (induction xs arbitrary: acc n)
  case Nil
  then show ?case by simp
next
  case (Cons x xs)
  from Cons.prems(3) obtain m where n: "n = Suc m" by (cases n) auto
  show ?case
  proof (cases xs)
    case Nil
    have "parse_value m (JSON_stringify x @ CHR '']'' # rest) = Some (x, CHR '']'' # rest)"
      using Cons.prems(3) n Nil by (intro Cons.prems(1)) (simp_all add: delim_def)
    then show ?thesis using n Nil by (simp add: is_ws_def)
  next
    case (Cons y ys)
    let ?tail = "join (map JSON_stringify xs) @ CHR '']'' # rest"
    have len: "length (JSON_stringify x) + 1 + length (join (map JSON_stringify xs)) < n"
      using Cons.prems(3) Cons by simp
    have "parse_value m (JSON_stringify x @ CHR '','' # ?tail) = Some (x, CHR '','' # ?tail)"
      using len n by (intro Cons.prems(1)) (simp_all add: delim_def)
    moreover have "parse_elements m (acc @ [x]) ?tail = Some ((acc @ [x]) @ xs, rest)"
      using len n Cons Cons.prems(1) by (intro Cons.IH) simp_all
    ultimately show ?thesis using n Cons by (simp add: is_ws_def)
  qed
qed

lemma obj_put_absent: "k \<notin> fst ` set xs \<Longrightarrow> obj_put xs k e = xs @ [(k, e)]"
  by (induction xs) auto

lemma parse_members_join:
  assumes "\<And>kv n rest. kv \<in> set kvs \<Longrightarrow> delim rest \<Longrightarrow> length (JSON_stringify (snd kv)) \<le> n \<Longrightarrow>
             parse_value n (JSON_stringify (snd kv) @ rest) = Some (snd kv, rest)"
    and "kvs \<noteq> []"
    and "distinct (map fst (acc @ kvs))"
    and "length (join (map (\<lambda>kv. quote (fst kv) @ CHR '':'' # JSON_stringify (snd kv)) kvs)) < n"
  shows "parse_members n acc
           (join (map (\<lambda>kv. quote (fst kv) @ CHR '':'' # JSON_stringify (snd kv)) kvs) @ CHR ''}'' # rest)
         = Some (acc @ kvs, rest)"
  using assms
proof (induction kvs arbitrary: acc n)
  case Nil
  then show ?case by simp
next
  case (Cons kv kvs)
  obtain k v where kv: "kv = (k, v)" by (cases kv)
  let ?f = "\<lambda>kv. quote (fst kv) @ CHR '':'' # JSON_stringify (snd kv)"
  from Cons.prems(4) obtain m where n: "n = Suc m" by (cases n) auto
  have fresh: "k \<notin> fst ` set acc" using Cons.prems(3) kv by auto
  have put: "obj_put acc k v = acc @ [(k, v)]" using fresh by (rule obj_put_absent)
  have key: "parse_string_body (concat (map escape_char k) @ CHR 0x22 # r) = Some (k, r)" for r
    by (rule parse_string_body_quote)
  show ?case
  proof (cases kvs)
    case Nil
    have "length (JSON_stringify v) \<le> m"
      using Cons.prems(4) n Nil kv by (simp add: quote_def)
    then have "parse_value m (JSON_stringify v @ CHR ''}'' # rest) = Some (v, CHR ''}'' # rest)"
      using Cons.prems(1) [of kv "CHR ''}'' # rest" m] kv by (simp add: delim_def)
    then show ?thesis using n Nil kv put
      by (simp add: quote_def key is_ws_def)
  next
    case (Cons kv' kvs')
    let ?tail = "join (map ?f kvs) @ CHR ''}'' # rest"
    have len: "length (?f kv) + 1 + length (join (map ?f kvs)) < n"
      using Cons.prems(4) Cons by simp
    then have "length (JSON_stringify v) \<le> m" using n kv by (simp add: quote_def)
    then have "parse_value m (JSON_stringify v @ CHR '','' # ?tail) = Some (v, CHR '','' # ?tail)"
      using Cons.prems(1) [of kv "CHR '','' # ?tail" m] kv by (simp add: delim_def)
    moreover have "parse_members m (acc @ [(k, v)]) ?tail = Some ((acc @ [(k, v)]) @ kvs, rest)"
      using len n Cons Cons.prems(1,3) kv by (intro Cons.IH) simp_all
    ultimately show ?thesis using n Cons kv put
      by (simp add: quote_def key is_ws_def)
  qed
qed


lemma parse_value_stringify:
  "wf_json v \<Longrightarrow> delim rest \<Longrightarrow> length (JSON_stringify v) \<le> n \<Longrightarrow>
   parse_value n (JSON_stringify v @ rest) = Some (v, rest)"
proof (induction v arbitrary: n rest)
  case JNull
  then obtain m where "n = Suc m" by (cases n) auto
  then show ?case by (simp add: is_ws_def)
next
  case (JBool b)
  then obtain m where "n = Suc m" by (cases n; cases b) auto
  then show ?case by (cases b) (simp_all add: is_ws_def)
next
  case (JNum i)
  then obtain m where n: "n = Suc m" using stringify_length [of "JNum i"] by (cases n) auto
  obtain c cs where h: "show_int i = c # cs" "c = CHR ''-'' \<or> is_digit c"
    using show_int_head by blast
  have "parse_number (c # cs @ rest) = Some (JNum i, rest)"
    using parse_number_show_int [OF JNum.prems(2), of i] h by simp
  with h n show ?case by (auto simp: is_ws_def is_digit_iff)
next
  case (JStr s)
  then obtain m where "n = Suc m" by (cases n) (auto simp: quote_def)
  then show ?case by (simp add: quote_def is_ws_def parse_string_body_quote)
next
  case (JArr xs)
  then obtain m where n: "n = Suc m" by (cases n) auto
  show ?case
  proof (cases "xs = []")
    case True
    with n show ?thesis by (simp add: is_ws_def)
  next
    case False
    let ?body = "join (map JSON_stringify xs)"
    have ih: "parse_value k (JSON_stringify x @ r) = Some (x, r)"
      if "x \<in> set xs" "delim r" "length (JSON_stringify x) \<le> k" for x k r
      using that JArr.prems(1) by (intro JArr.IH) (auto simp: list_all_iff)
    have len: "length ?body < m" using JArr.prems(3) n by simp
    have el: "parse_elements m [] (?body @ CHR '']'' # rest) = Some ([] @ xs, rest)"
      using ih False len by (rule parse_elements_join)
    from False obtain x xs' where xs: "xs = x # xs'" by (cases xs) auto
    obtain c cs where c: "JSON_stringify x = c # cs" "value_start c"
      using stringify_head by blast
    have "\<exists>t. ?body @ CHR '']'' # rest = c # t"
      using xs c by (cases xs') auto
    then obtain t where t: "?body @ CHR '']'' # rest = c # t" by blast
    have "parse_value (Suc m) (CHR ''['' # ?body @ CHR '']'' # rest) = Some (JArr xs, rest)"
      using el c(2) unfolding t by (simp add: is_ws_def value_start_def)
    with n show ?thesis by simp
  qed
next
  case (JObj kvs)
  then obtain m where n: "n = Suc m" by (cases n) auto
  let ?f = "\<lambda>kv. quote (fst kv) @ CHR '':'' # JSON_stringify (snd kv)"
  show ?case
  proof (cases "kvs = []")
    case True
    with n show ?thesis by (simp add: is_ws_def)
  next
    case False
    let ?body = "join (map ?f kvs)"
    have ih: "parse_value k (JSON_stringify (snd kv) @ r) = Some (snd kv, r)"
      if "kv \<in> set kvs" "delim r" "length (JSON_stringify (snd kv)) \<le> k" for kv k r
    proof -
      have "snd kv \<in> Basic_BNFs.snds kv" by (cases kv) simp
      moreover have "wf_json (snd kv)" using that(1) JObj.prems(1) by (auto simp: list_all_iff)
      ultimately show ?thesis using that by (intro JObj.IH)
    qed
    have len: "length ?body < m" using JObj.prems(3) n by simp
    have d: "distinct (map fst ([] @ kvs))" using JObj.prems(1) by simp
    have el: "parse_members m [] (?body @ CHR ''}'' # rest) = Some ([] @ kvs, rest)"
      using ih False d len by (rule parse_members_join)
    from False obtain kv kvs' where kvs: "kvs = kv # kvs'" by (cases kvs) auto
    have "\<exists>t. ?body @ CHR ''}'' # rest = CHR 0x22 # t"
      using kvs by (cases kvs') (auto simp: quote_def)
    then obtain t where t: "?body @ CHR ''}'' # rest = CHR 0x22 # t" by blast
    have "parse_value (Suc m) (CHR ''{'' # ?body @ CHR ''}'' # rest) = Some (JObj kvs, rest)"
      using el unfolding t by (simp add: is_ws_def)
    with n show ?thesis by simp
  qed
qed

lemma JSON_parse_stringify: "wf_json v \<Longrightarrow> JSON_parse (JSON_stringify v) = Some v"
  using parse_value_stringify [of v "[]" "Suc (length (JSON_stringify v))"]
  by (simp add: JSON_parse_def delim_def)




subsection \<open>Facts about the tiers\<close>

lemma parse_falsy: "\<not> truthy d \<Longrightarrow> JSON_parse (JSON_stringify d) = Some d"
  by (rule JSON_parse_stringify) (cases d; simp)

lemma parse_remote:
  "JSON_parse (JSON_stringify (JObj [(''tier'', JStr ''remote'')])) = Some (JObj [(''tier'', JStr ''remote'')])"
  by (rule JSON_parse_stringify) simp

lemma parse_one: "JSON_parse (JSON_stringify (JNum 1)) = Some (JNum 1)"
  by (rule JSON_parse_stringify) simp

lemma str_remote_ne: "JSON_stringify (JObj [(''tier'', JStr ''remote'')]) \<noteq> []"
  by simp

lemma str_one_ne: "JSON_stringify (JNum 1) \<noteq> []"
  using stringify_length [of "JNum 1"] by simp

lemma RedisManager_get_unreachable: "\<not> reachable c \<Longrightarrow> RedisManager_get c key = Inr JNull"
  by (simp add: RedisManager_get_def RedisManager_get_try_def client_get_def)

lemma cache_local_hit:
  "method r = ''GET'' \<Longrightarrow> NodeCache_get (memoryCache w) (generateKey r) = Some v \<Longrightarrow> truthy v \<Longrightarrow>
   cache ttl True r w =
     ([KeyDerived (generateKey r), MemoryGet (generateKey r),
       HeaderSet ''X-Cache'' ''HIT-MEMORY'', JsonSent v], w)"
  by (simp add: cache_def Let_def)

lemma cache_miss:
  "method r = ''GET'' \<Longrightarrow> useMemory \<longrightarrow> \<not> truthy_opt (NodeCache_get (memoryCache w) (generateKey r)) \<Longrightarrow>
   RedisManager_get (redisClient w) (generateKey r) = Inr d \<Longrightarrow> \<not> truthy d \<Longrightarrow>
   cache ttl useMemory r w =
     (KeyDerived (generateKey r) # (if useMemory then [MemoryGet (generateKey r)] else []) @
        [RedisGet (generateKey r), HeaderSet ''X-Cache'' ''MISS'', JsonWrapped, NextCalled], w)"
  by (simp add: cache_def Let_def)

lemma cache_sent_truthy: "JsonSent x \<in> set (fst (cache ttl useMemory r w)) \<Longrightarrow> truthy x"
  by (auto simp: cache_def Let_def split: if_splits option.splits sum.splits)

lemma NodeCache_get_None: "NodeCache_get m k = None \<longleftrightarrow> k \<notin> fst ` set (data m)"
  by (simp add: NodeCache_get_def map_of_eq_None_iff)

lemma remote_only_get:
  "RedisManager_get (redisClient world_remote_only) (generateKey req_products) = Inr (JObj [(''tier'', JStr ''remote'')])"
  using str_remote_ne
  by (simp add: world_remote_only_def RedisManager_get_def RedisManager_get_try_def client_get_def parse_remote del: JSON_stringify.simps)

lemma RedisManager_get_falsy:
  assumes "entries c key = None \<or> (\<exists>d t. entries c key = Some (JSON_stringify d, t) \<and> \<not> truthy d)"
  shows "\<exists>d. RedisManager_get c key = Inr d \<and> \<not> truthy d"
proof (cases "reachable c")
  case False
  then show ?thesis by (simp add: RedisManager_get_unreachable)
next
  case True
  from assms show ?thesis
  proof
    assume "entries c key = None"
    with True show ?thesis
      by (simp add: RedisManager_get_def RedisManager_get_try_def client_get_def)
  next
    assume "\<exists>d t. entries c key = Some (JSON_stringify d, t) \<and> \<not> truthy d"
    then obtain d t where e: "entries c key = Some (JSON_stringify d, t)" and f: "\<not> truthy d"
      by blast
    from f have p: "JSON_parse (JSON_stringify d) = Some d" by (rule parse_falsy)
    have "RedisManager_get c key = Inr d \<or> RedisManager_get c key = Inr JNull"
      using True e p by (simp add: RedisManager_get_def RedisManager_get_try_def client_get_def)
    with f show ?thesis by auto
  qed
qed

subsection \<open>The remote tier out of reach\<close>

text \<open>
  C1.  While the Redis server cannot be reached, \<open>RedisManager_get\<close> resolves to
  \<^verbatim>\<open>null\<close>, \<open>RedisManager_set\<close> and \<open>RedisManager_del\<close> resolve to \<^verbatim>\<open>false\<close>, for
  every key, value and time to live; none of them rejects.  The memory tier goes on
  serving and storing: a GET whose key it holds with a truthy value is answered from
  it, any other GET is a miss that is handed to the route, and the replaced
  \<^verbatim>\<open>res.json\<close> stores the payload exactly as \<open>NodeCache_set\<close> does.
\<close>

theorem unreachable_redis_fails_soft:
  assumes "\<not> reachable (redisClient w)"
  shows "RedisManager_get (redisClient w) key = Inr JNull
       \<and> RedisManager_set (redisClient w) key v ttl = Inr (False, redisClient w)
       \<and> RedisManager_del (redisClient w) key = Inr (False, redisClient w)
       \<and> (\<forall>x. method r = ''GET'' \<and> NodeCache_get (memoryCache w) (generateKey r) = Some x \<and> truthy x
             \<longrightarrow> cache ttl True r w =
                   ([KeyDerived (generateKey r), MemoryGet (generateKey r),
                     HeaderSet ''X-Cache'' ''HIT-MEMORY'', JsonSent x], w))
       \<and> (method r = ''GET'' \<and> \<not> truthy_opt (NodeCache_get (memoryCache w) (generateKey r))
             \<longrightarrow> cache ttl True r w =
                   ([KeyDerived (generateKey r), MemoryGet (generateKey r), RedisGet (generateKey r),
                     HeaderSet ''X-Cache'' ''MISS'', JsonWrapped, NextCalled], w))
       \<and> res_json_override ttl True key v w =
           (case NodeCache_set (memoryCache w) key v ttl of
              Inl e \<Rightarrow> Inl e
            | Inr m' \<Rightarrow> Inr ([MemorySet key, RedisSet key, JsonSent v], w\<lparr>memoryCache := m'\<rparr>))"
proof -
  have g: "RedisManager_get (redisClient w) k = Inr JNull" for k
    using assms by (rule RedisManager_get_unreachable)
  have s: "RedisManager_set (redisClient w) key v ttl = Inr (False, redisClient w)"
    using assms by (simp add: RedisManager_set_def RedisManager_set_try_def client_setEx_def)
  have d: "RedisManager_del (redisClient w) key = Inr (False, redisClient w)"
    using assms by (simp add: RedisManager_del_def RedisManager_del_try_def client_del_def)
  have h: "\<forall>x. method r = ''GET'' \<and> NodeCache_get (memoryCache w) (generateKey r) = Some x \<and> truthy x
             \<longrightarrow> cache ttl True r w =
                   ([KeyDerived (generateKey r), MemoryGet (generateKey r),
                     HeaderSet ''X-Cache'' ''HIT-MEMORY'', JsonSent x], w)"
    by (simp add: cache_local_hit)
  have m: "method r = ''GET'' \<and> \<not> truthy_opt (NodeCache_get (memoryCache w) (generateKey r))
             \<longrightarrow> cache ttl True r w =
                   ([KeyDerived (generateKey r), MemoryGet (generateKey r), RedisGet (generateKey r),
                     HeaderSet ''X-Cache'' ''MISS'', JsonWrapped, NextCalled], w)"
    using cache_miss [of r True w JNull ttl] g by simp
  have o: "res_json_override ttl True key v w =
           (case NodeCache_set (memoryCache w) key v ttl of
              Inl e \<Rightarrow> Inl e
            | Inr m' \<Rightarrow> Inr ([MemorySet key, RedisSet key, JsonSent v], w\<lparr>memoryCache := m'\<rparr>))"
    by (simp add: res_json_override_def s split: sum.splits)
  from g s d h m o show ?thesis by blast
qed

theorem unreachable_redis_fails_soft_witness:
  "RedisManager_get (redisClient world_down) (generateKey req_products) = Inr JNull
   \<and> RedisManager_set (redisClient world_down) (generateKey req_products) (JNum 5) 180 = Inr (False, redisClient world_down)
   \<and> RedisManager_del (redisClient world_down) (generateKey req_products) = Inr (False, redisClient world_down)
   \<and> cache 180 True req_products world_down =
       ([KeyDerived (generateKey req_products), MemoryGet (generateKey req_products),
         HeaderSet ''X-Cache'' ''HIT-MEMORY'', JsonSent (JObj [(''tier'', JStr ''local'')])], world_down)"
proof -
  have u: "\<not> reachable (redisClient world_down)" by (simp add: world_down_def)
  have m: "method req_products = ''GET''" by (simp add: req_products_def)
  have l: "NodeCache_get (memoryCache world_down) (generateKey req_products) = Some (JObj [(''tier'', JStr ''local'')])"
    by (simp add: world_down_def NodeCache_get_def)
  have t: "truthy (JObj [(''tier'', JStr ''local'')])" by simp
  from unreachable_redis_fails_soft [OF u, where key = "generateKey req_products" and v = "JNum 5" and ttl = 180
      and r = req_products] m l t
  show ?thesis by blast
qed

subsection \<open>An exception while the response is captured\<close>

text \<open>Whatever the tiers do during the lookup, a GET is either answered from a tier
  or handed on with \<^verbatim>\<open>next()\<close>; the lookup itself never hands an error on.\<close>

lemma cache_answers_or_proceeds:
  "(\<exists>v. JsonSent v \<in> set (fst (cache ttl useMemory r w))) \<or> NextCalled \<in> set (fst (cache ttl useMemory r w))"
  by (auto simp: cache_def Let_def split: option.splits sum.splits)

lemma cache_no_error_handed_on: "NextError e \<notin> set (fst (cache ttl useMemory r w))"
  by (auto simp: cache_def Let_def split: option.splits sum.splits if_splits)

text \<open>
  C2.  The middleware means to keep every error of the cache away from the client:
  whatever goes wrong inside its \<^verbatim>\<open>try\<close> block ends in \<^verbatim>\<open>next()\<close>.  The function it
  installs as \<^verbatim>\<open>res.json\<close> runs later, outside that block.  On a miss with the memory
  tier at its key limit, \<^verbatim>\<open>memoryCache.set\<close> throws ECACHEFULL into the route handler,
  the payload is never sent, and the handler passes the error to \<^verbatim>\<open>next(error)\<close>: the
  request fails.
\<close>

theorem override_raises_at_capacity:
  "serve 180 True req_products (JObj [(''products'', JArr [])])
      (world_full\<lparr>redisClient := \<lparr>reachable = True, entries = Map.empty\<rparr>\<rparr>) =
     ([KeyDerived (generateKey req_products), MemoryGet (generateKey req_products),
       RedisGet (generateKey req_products), HeaderSet ''X-Cache'' ''MISS'', JsonWrapped, NextCalled,
       NextError ECACHEFULL],
      world_full\<lparr>redisClient := \<lparr>reachable = True, entries = Map.empty\<rparr>\<rparr>)"
proof -
  let ?w = "world_full\<lparr>redisClient := \<lparr>reachable = True, entries = Map.empty\<rparr>\<rparr>"
  have m: "method req_products = ''GET''" by (simp add: req_products_def)
  have l: "NodeCache_get (memoryCache ?w) (generateKey req_products) = None"
    by (simp add: world_full_def NodeCache_get_def generateKey_def req_products_def)
  have r: "RedisManager_get (redisClient ?w) (generateKey req_products) = Inr JNull"
    by (simp add: RedisManager_get_def RedisManager_get_try_def client_get_def)
  have c: "cache 180 True req_products ?w =
     ([KeyDerived (generateKey req_products), MemoryGet (generateKey req_products),
       RedisGet (generateKey req_products), HeaderSet ''X-Cache'' ''MISS'', JsonWrapped, NextCalled], ?w)"
    using cache_miss [OF m _ r, of True 180] l by simp
  have s: "NodeCache_set (memoryCache ?w) (generateKey req_products) (JObj [(''products'', JArr [])]) 180 = Inl ECACHEFULL"
    by (simp add: world_full_def NodeCache_set_def)
  have o: "res_json_override 180 True (generateKey req_products) (JObj [(''products'', JArr [])]) ?w = Inl ECACHEFULL"
    by (simp add: res_json_override_def world_full_def NodeCache_set_def)
  show ?thesis
    by (simp add: serve_def c route_handler_def o)
qed

subsection \<open>Order of the tiers\<close>

text \<open>
  C3 (amended).  For a GET handled with \<open>useMemory\<close> on whose key the memory tier holds
  with a truthy value, the middleware answers with that value and the marker
  HIT-MEMORY, and does not ask Redis, whatever Redis holds under the key.
\<close>

theorem local_hit_precedes_remote:
  "method r = ''GET'' \<Longrightarrow> NodeCache_get (memoryCache w) (generateKey r) = Some v \<Longrightarrow> truthy v \<Longrightarrow>
   cache ttl True r w =
     ([KeyDerived (generateKey r), MemoryGet (generateKey r),
       HeaderSet ''X-Cache'' ''HIT-MEMORY'', JsonSent v], w)"
  by (rule cache_local_hit)

theorem local_hit_precedes_remote_witness:
  "method req_products = ''GET''
   \<and> NodeCache_get (memoryCache world_both) (generateKey req_products) = Some (JObj [(''tier'', JStr ''local'')])
   \<and> truthy (JObj [(''tier'', JStr ''local'')])
   \<and> RedisManager_get (redisClient world_both) (generateKey req_products) = Inr (JObj [(''tier'', JStr ''remote'')])
   \<and> cache 180 True req_products world_both =
     ([KeyDerived (generateKey req_products), MemoryGet (generateKey req_products),
       HeaderSet ''X-Cache'' ''HIT-MEMORY'', JsonSent (JObj [(''tier'', JStr ''local'')])], world_both)"
proof -
  have m: "method req_products = ''GET''" by (simp add: req_products_def)
  have l: "NodeCache_get (memoryCache world_both) (generateKey req_products) = Some (JObj [(''tier'', JStr ''local'')])"
    by (simp add: world_both_def NodeCache_get_def)
  have t: "truthy (JObj [(''tier'', JStr ''local'')])" by simp
  have r: "RedisManager_get (redisClient world_both) (generateKey req_products) = Inr (JObj [(''tier'', JStr ''remote'')])"
    using str_remote_ne
    by (simp add: world_both_def RedisManager_get_def RedisManager_get_try_def client_get_def parse_remote del: JSON_stringify.simps)
  from local_hit_precedes_remote [OF m l t] m l t r show ?thesis by blast
qed

text \<open>
  C3 as stated fails twice.  With \<open>useMemory\<close> off the memory tier is not consulted
  and the Redis value is returned though the memory tier holds another one.  With
  \<open>useMemory\<close> on and the falsy value \<open>0\<close> in the memory tier, the lookup goes on to
  Redis and returns its value \<open>1\<close>.
\<close>

theorem local_value_not_returned_counterexample:
  "NodeCache_get (memoryCache world_both) (generateKey req_products) = Some (JObj [(''tier'', JStr ''local'')])
   \<and> RedisManager_get (redisClient world_both) (generateKey req_products) = Inr (JObj [(''tier'', JStr ''remote'')])
   \<and> cache 180 False req_products world_both =
       ([KeyDerived (generateKey req_products), RedisGet (generateKey req_products),
         HeaderSet ''X-Cache'' ''HIT-REDIS'', JsonSent (JObj [(''tier'', JStr ''remote'')])], world_both)
   \<and> NodeCache_get (memoryCache world_falsy_local) (generateKey req_products) = Some (JNum 0)
   \<and> RedisManager_get (redisClient world_falsy_local) (generateKey req_products) = Inr (JNum 1)
   \<and> fst (cache 180 True req_products world_falsy_local) =
       [KeyDerived (generateKey req_products), MemoryGet (generateKey req_products),
         RedisGet (generateKey req_products), MemorySet (generateKey req_products),
         HeaderSet ''X-Cache'' ''HIT-REDIS'', JsonSent (JNum 1)]"
proof -
  have m: "method req_products = ''GET''" by (simp add: req_products_def)
  have l: "NodeCache_get (memoryCache world_both) (generateKey req_products) = Some (JObj [(''tier'', JStr ''local'')])"
    by (simp add: world_both_def NodeCache_get_def)
  have r: "RedisManager_get (redisClient world_both) (generateKey req_products) = Inr (JObj [(''tier'', JStr ''remote'')])"
    using str_remote_ne
    by (simp add: world_both_def RedisManager_get_def RedisManager_get_try_def client_get_def parse_remote del: JSON_stringify.simps)
  have c: "cache 180 False req_products world_both =
       ([KeyDerived (generateKey req_products), RedisGet (generateKey req_products),
         HeaderSet ''X-Cache'' ''HIT-REDIS'', JsonSent (JObj [(''tier'', JStr ''remote'')])], world_both)"
    by (simp add: cache_def Let_def m r)
  have l2: "NodeCache_get (memoryCache world_falsy_local) (generateKey req_products) = Some (JNum 0)"
    by (simp add: world_falsy_local_def NodeCache_get_def)
  have r2: "RedisManager_get (redisClient world_falsy_local) (generateKey req_products) = Inr (JNum 1)"
    using str_one_ne
    by (simp add: world_falsy_local_def RedisManager_get_def RedisManager_get_try_def client_get_def parse_one del: JSON_stringify.simps)
  have s2: "NodeCache_set (memoryCache world_falsy_local) (generateKey req_products) (JNum 1) 180 =
      Inr (\<lparr>data = [(generateKey req_products, (JNum 1, 180))], maxKeys = 1000\<rparr>)"
    by (simp add: world_falsy_local_def NodeCache_set_def)
  have c2: "fst (cache 180 True req_products world_falsy_local) =
       [KeyDerived (generateKey req_products), MemoryGet (generateKey req_products),
         RedisGet (generateKey req_products), MemorySet (generateKey req_products),
         HeaderSet ''X-Cache'' ''HIT-REDIS'', JsonSent (JNum 1)]"
    by (simp add: cache_def Let_def m r2 l2 s2)
  from l r c l2 r2 c2 show ?thesis by blast
qed

subsection \<open>Backfill\<close>

text \<open>
  C4 (amended).  For a GET handled with \<open>useMemory\<close> on, whose key is absent from the
  memory tier, for which Redis yields a truthy value, and with the memory tier below
  its key limit (or the limit off): the value is answered with the marker HIT-REDIS and
  appended to the memory tier, and the same request run again is answered from the
  memory tier with the marker HIT-MEMORY.
\<close>

theorem remote_hit_backfills_local:
  assumes "method r = ''GET''"
    and "NodeCache_get (memoryCache w) (generateKey r) = None"
    and "RedisManager_get (redisClient w) (generateKey r) = Inr v"
    and "truthy v"
    and "maxKeys (memoryCache w) < 0 \<or> int (length (data (memoryCache w))) < maxKeys (memoryCache w)"
  shows "cache ttl True r w =
           ([KeyDerived (generateKey r), MemoryGet (generateKey r), RedisGet (generateKey r),
             MemorySet (generateKey r), HeaderSet ''X-Cache'' ''HIT-REDIS'', JsonSent v],
            w\<lparr>memoryCache := (memoryCache w)\<lparr>data := data (memoryCache w) @ [(generateKey r, (v, ttl))]\<rparr>\<rparr>)
       \<and> cache ttl True r (snd (cache ttl True r w)) =
           ([KeyDerived (generateKey r), MemoryGet (generateKey r),
             HeaderSet ''X-Cache'' ''HIT-MEMORY'', JsonSent v],
            snd (cache ttl True r w))"
proof -
  let ?k = "generateKey r"
  let ?w1 = "w\<lparr>memoryCache := (memoryCache w)\<lparr>data := data (memoryCache w) @ [(?k, (v, ttl))]\<rparr>\<rparr>"
  from assms(2) have absent: "?k \<notin> fst ` set (data (memoryCache w))"
    by (simp add: NodeCache_get_None)
  from assms(5) absent
  have set: "NodeCache_set (memoryCache w) ?k v ttl =
      Inr ((memoryCache w)\<lparr>data := data (memoryCache w) @ [(?k, (v, ttl))]\<rparr>)"
    by (auto simp: NodeCache_set_def obj_put_absent)
  have first: "cache ttl True r w =
           ([KeyDerived ?k, MemoryGet ?k, RedisGet ?k, MemorySet ?k,
             HeaderSet ''X-Cache'' ''HIT-REDIS'', JsonSent v], ?w1)"
    using assms(1-4) by (simp add: cache_def Let_def set)
  from absent have "map_of (data (memoryCache w)) ?k = None"
    by (simp add: map_of_eq_None_iff)
  then have got: "NodeCache_get (memoryCache ?w1) ?k = Some v"
    by (simp add: NodeCache_get_def map_add_def)
  have "cache ttl True r ?w1 =
           ([KeyDerived ?k, MemoryGet ?k, HeaderSet ''X-Cache'' ''HIT-MEMORY'', JsonSent v], ?w1)"
    using assms(1,4) got by (simp add: cache_def Let_def)
  with first show ?thesis by simp
qed

theorem remote_hit_backfills_local_witness:
  "cache 180 True req_products world_remote_only =
           ([KeyDerived (generateKey req_products), MemoryGet (generateKey req_products), RedisGet (generateKey req_products),
             MemorySet (generateKey req_products), HeaderSet ''X-Cache'' ''HIT-REDIS'', JsonSent (JObj [(''tier'', JStr ''remote'')])],
            world_remote_only\<lparr>memoryCache := (memoryCache world_remote_only)\<lparr>data := data (memoryCache world_remote_only) @ [(generateKey req_products, (JObj [(''tier'', JStr ''remote'')], 180))]\<rparr>\<rparr>)
   \<and> cache 180 True req_products (snd (cache 180 True req_products world_remote_only)) =
           ([KeyDerived (generateKey req_products), MemoryGet (generateKey req_products),
             HeaderSet ''X-Cache'' ''HIT-MEMORY'', JsonSent (JObj [(''tier'', JStr ''remote'')])],
           snd (cache 180 True req_products world_remote_only))"
proof -
  have m: "method req_products = ''GET''" by (simp add: req_products_def)
  have l: "NodeCache_get (memoryCache world_remote_only) (generateKey req_products) = None"
    by (simp add: world_remote_only_def NodeCache_get_def)
  have t: "truthy (JObj [(''tier'', JStr ''remote'')])" by simp
  have c: "maxKeys (memoryCache world_remote_only) < 0 \<or>
     int (length (data (memoryCache world_remote_only))) < maxKeys (memoryCache world_remote_only)"
    by (simp add: world_remote_only_def)
  show ?thesis by (rule remote_hit_backfills_local [OF m l remote_only_get t c])
qed

text \<open>
  C4 as stated fails twice.  With \<open>useMemory\<close> off a Redis hit leaves the memory tier
  empty, so every later lookup is a Redis hit again.  With the memory tier at its key
  limit the backfill throws ECACHEFULL inside the \<^verbatim>\<open>try\<close> block: nothing is written
  back, and the request goes to the route without a hit.
\<close>

theorem no_backfill_counterexample:
  "NodeCache_get (memoryCache world_remote_only) (generateKey req_products) = None
   \<and> RedisManager_get (redisClient world_remote_only) (generateKey req_products) = Inr (JObj [(''tier'', JStr ''remote'')])
   \<and> cache 180 False req_products world_remote_only =
       ([KeyDerived (generateKey req_products), RedisGet (generateKey req_products),
         HeaderSet ''X-Cache'' ''HIT-REDIS'', JsonSent (JObj [(''tier'', JStr ''remote'')])], world_remote_only)
   \<and> NodeCache_get (memoryCache world_full) (generateKey req_products) = None
   \<and> RedisManager_get (redisClient world_full) (generateKey req_products) = Inr (JObj [(''tier'', JStr ''remote'')])
   \<and> cache 180 True req_products world_full =
       ([KeyDerived (generateKey req_products), MemoryGet (generateKey req_products),
         RedisGet (generateKey req_products), MemorySet (generateKey req_products),
         ErrorLogged, NextCalled], world_full)"
proof -
  have m: "method req_products = ''GET''" by (simp add: req_products_def)
  have l: "NodeCache_get (memoryCache world_remote_only) (generateKey req_products) = None"
    by (simp add: world_remote_only_def NodeCache_get_def)
  have c: "cache 180 False req_products world_remote_only =
       ([KeyDerived (generateKey req_products), RedisGet (generateKey req_products),
         HeaderSet ''X-Cache'' ''HIT-REDIS'', JsonSent (JObj [(''tier'', JStr ''remote'')])], world_remote_only)"
    by (simp add: cache_def Let_def m remote_only_get)
  have l2: "NodeCache_get (memoryCache world_full) (generateKey req_products) = None"
    by (simp add: world_full_def NodeCache_get_def generateKey_def req_products_def)
  have r2: "RedisManager_get (redisClient world_full) (generateKey req_products) = Inr (JObj [(''tier'', JStr ''remote'')])"
    using str_remote_ne
    by (simp add: world_full_def RedisManager_get_def RedisManager_get_try_def client_get_def parse_remote del: JSON_stringify.simps)
  have s2: "NodeCache_set (memoryCache world_full) (generateKey req_products) (JObj [(''tier'', JStr ''remote'')]) 180 = Inl ECACHEFULL"
    by (simp add: world_full_def NodeCache_set_def)
  have c2: "cache 180 True req_products world_full =
       ([KeyDerived (generateKey req_products), MemoryGet (generateKey req_products),
         RedisGet (generateKey req_products), MemorySet (generateKey req_products),
         ErrorLogged, NextCalled], world_full)"
    by (simp add: cache_def Let_def m l2 r2 s2)
  from l remote_only_get c l2 r2 c2 show ?thesis by blast
qed

subsection \<open>Falsy payloads\<close>

text \<open>
  C10.  Every payload the middleware sends from a tier is truthy.  For a GET whose key
  the memory tier lacks or holds with a falsy value, while Redis lacks it or holds the
  serialization of a falsy value, the run is a miss: marker MISS, \<^verbatim>\<open>res.json\<close> replaced,
  \<^verbatim>\<open>next\<close> called, so the route handler computes the payload again.
\<close>

theorem falsy_values_never_hit:
  "(\<forall>x. JsonSent x \<in> set (fst (cache ttl useMemory r w)) \<longrightarrow> truthy x)
   \<and> (method r = ''GET''
        \<and> \<not> truthy_opt (NodeCache_get (memoryCache w) (generateKey r))
        \<and> (entries (redisClient w) (generateKey r) = None
             \<or> (\<exists>d t. entries (redisClient w) (generateKey r) = Some (JSON_stringify d, t) \<and> \<not> truthy d))
      \<longrightarrow> cache ttl useMemory r w =
            (KeyDerived (generateKey r) # (if useMemory then [MemoryGet (generateKey r)] else []) @
               [RedisGet (generateKey r), HeaderSet ''X-Cache'' ''MISS'', JsonWrapped, NextCalled], w))"
proof (intro conjI allI impI)
  fix x assume "JsonSent x \<in> set (fst (cache ttl useMemory r w))"
  then show "truthy x" by (rule cache_sent_truthy)
next
  assume a: "method r = ''GET''
        \<and> \<not> truthy_opt (NodeCache_get (memoryCache w) (generateKey r))
        \<and> (entries (redisClient w) (generateKey r) = None
             \<or> (\<exists>d t. entries (redisClient w) (generateKey r) = Some (JSON_stringify d, t) \<and> \<not> truthy d))"
  then obtain d where "RedisManager_get (redisClient w) (generateKey r) = Inr d" and "\<not> truthy d"
    using RedisManager_get_falsy by blast
  with a show "cache ttl useMemory r w =
            (KeyDerived (generateKey r) # (if useMemory then [MemoryGet (generateKey r)] else []) @
               [RedisGet (generateKey r), HeaderSet ''X-Cache'' ''MISS'', JsonWrapped, NextCalled], w)"
    by (intro cache_miss) auto
qed

theorem falsy_values_never_hit_witness:
  "cache 180 True req_products world_zero =
     ([KeyDerived (generateKey req_products), MemoryGet (generateKey req_products),
       RedisGet (generateKey req_products), HeaderSet ''X-Cache'' ''MISS'', JsonWrapped, NextCalled],
      world_zero)"
proof -
  have m: "method req_products = ''GET''" by (simp add: req_products_def)
  have l: "\<not> truthy_opt (NodeCache_get (memoryCache world_zero) (generateKey req_products))"
    by (simp add: world_zero_def NodeCache_get_def)
  have e: "entries (redisClient world_zero) (generateKey req_products) = Some (JSON_stringify (JNum 0), 180)"
    by (simp add: world_zero_def)
  have "\<not> truthy (JNum 0)" by simp
  with e have h: "entries (redisClient world_zero) (generateKey req_products) = None
     \<or> (\<exists>d t. entries (redisClient world_zero) (generateKey req_products) = Some (JSON_stringify d, t) \<and> \<not> truthy d)"
    by blast
  from falsy_values_never_hit [of 180 True req_products world_zero] m l h
  have "cache 180 True req_products world_zero =
     (KeyDerived (generateKey req_products) #
        (if True then [MemoryGet (generateKey req_products)] else []) @
        [RedisGet (generateKey req_products), HeaderSet ''X-Cache'' ''MISS'', JsonWrapped,
         NextCalled], world_zero)"
    by blast
  then show ?thesis by simp
qed

subsection \<open>The key limit of the memory tier\<close>

lemma set_each_room:
  "distinct (map fst kvs) \<Longrightarrow> fst ` set kvs \<inter> fst ` set (data m) = {} \<Longrightarrow>
   maxKeys m = int N \<Longrightarrow> length (data m) + length kvs = Suc N \<Longrightarrow> kvs \<noteq> [] \<Longrightarrow>
   set_each m kvs = (replicate (length kvs - 1) True @ [False], m\<lparr>data := data m @ butlast kvs\<rparr>)"
proof (induction kvs arbitrary: m)
  case Nil
  then show ?case by simp
next
  case (Cons e kvs)
  obtain k v ttl where e: "e = (k, v, ttl)" by (cases e)
  show ?case
  proof (cases kvs)
    case Nil
    with Cons.prems e show ?thesis by (simp add: NodeCache_set_def)
  next
    case (Cons e' kvs')
    let ?m1 = "m\<lparr>data := data m @ [(k, (v, ttl))]\<rparr>"
    from Cons.prems(2) e have absent: "k \<notin> fst ` set (data m)" by auto
    from Cons.prems(3,4) Cons have "int (length (data m)) < maxKeys m" by simp
    with absent have s: "NodeCache_set m k v ttl = Inr ?m1"
      by (simp add: NodeCache_set_def obj_put_absent)
    have d: "distinct (map fst kvs)" using Cons.prems(1) by simp
    have i: "fst ` set kvs \<inter> fst ` set (data ?m1) = {}"
      using Cons.prems(1,2) e by auto
    have mk: "maxKeys ?m1 = int N" using Cons.prems(3) by simp
    have l: "length (data ?m1) + length kvs = Suc N" using Cons.prems(4) by simp
    have ne: "kvs \<noteq> []" using Cons by simp
    from Cons.IH [OF d i mk l ne]
    have "set_each ?m1 kvs =
        (replicate (length kvs - 1) True @ [False], ?m1\<lparr>data := data ?m1 @ butlast kvs\<rparr>)" .
    with s e Cons show ?thesis by simp
  qed
qed

text \<open>
  C6 (amended).  A \<^verbatim>\<open>set\<close> on a memory tier that holds as many keys as its limit allows
  throws ECACHEFULL; nothing is evicted.  Of \<open>N + 1\<close> calls with distinct keys on an
  empty tier of limit \<open>N\<close>, the first \<open>N\<close> return and the last one throws, and the tier
  then holds exactly the first \<open>N\<close> entries, in the order of their insertion.
\<close>

theorem set_at_key_limit_raises:
  "(0 \<le> maxKeys m \<and> maxKeys m \<le> int (length (data m)) \<longrightarrow> NodeCache_set m k v ttl = Inl ECACHEFULL)
   \<and> (distinct (map fst kvs) \<and> length kvs = Suc N \<longrightarrow>
        set_each \<lparr>data = [], maxKeys = int N\<rparr> kvs =
          (replicate N True @ [False], \<lparr>data = butlast kvs, maxKeys = int N\<rparr>))"
proof (intro conjI impI)
  assume "0 \<le> maxKeys m \<and> maxKeys m \<le> int (length (data m))"
  then show "NodeCache_set m k v ttl = Inl ECACHEFULL" by (simp add: NodeCache_set_def)
next
  assume a: "distinct (map fst kvs) \<and> length kvs = Suc N"
  then have "set_each \<lparr>data = [], maxKeys = int N\<rparr> kvs =
     (replicate (length kvs - 1) True @ [False],
      \<lparr>data = [], maxKeys = int N\<rparr>\<lparr>data := data \<lparr>data = [], maxKeys = int N\<rparr> @ butlast kvs\<rparr>)"
    by (intro set_each_room) auto
  with a show "set_each \<lparr>data = [], maxKeys = int N\<rparr> kvs =
          (replicate N True @ [False], \<lparr>data = butlast kvs, maxKeys = int N\<rparr>)" by simp
qed

theorem set_at_key_limit_raises_witness:
  "set_each \<lparr>data = [], maxKeys = 2\<rparr> three_sets =
     ([True, True, False], \<lparr>data = [(''a'', JNum 1, 60), (''b'', JNum 2, 60)], maxKeys = 2\<rparr>)"
proof -
  have "distinct (map fst three_sets) \<and> length three_sets = Suc 2" by (simp add: three_sets_def)
  with set_at_key_limit_raises [of "\<lparr>data = [], maxKeys = 2\<rparr>" "''a''" JNull 0 three_sets 2]
  have "set_each \<lparr>data = [], maxKeys = int 2\<rparr> three_sets =
          (replicate 2 True @ [False], \<lparr>data = butlast three_sets, maxKeys = int 2\<rparr>)" by blast
  then show ?thesis by (simp add: three_sets_def numeral_2_eq_2)
qed

text \<open>
  C6 as stated fails at limit 2 and the keys \<open>a\<close>, \<open>b\<close>, \<open>c\<close>: the third call throws,
  the oldest key \<open>a\<close> is still there and \<open>c\<close> is not.
\<close>

theorem no_eviction_counterexample:
  "maxKeys (constructor (Some 2)) = 2
   \<and> distinct (map fst three_sets)
   \<and> set_each (constructor (Some 2)) three_sets =
       ([True, True, False], \<lparr>data = [(''a'', JNum 1, 60), (''b'', JNum 2, 60)], maxKeys = 2\<rparr>)
   \<and> NodeCache_get (snd (set_each (constructor (Some 2)) three_sets)) ''a'' = Some (JNum 1)
   \<and> NodeCache_get (snd (set_each (constructor (Some 2)) three_sets)) ''c'' = None"
  by (simp add: constructor_def three_sets_def NodeCache_set_def NodeCache_get_def)

subsection \<open>Key derivation\<close>




end
